theory Spec2Isabelle
  imports Main "HOL-Library.Word"
begin

section \<open>Machine types and faults\<close>

text \<open>
  The module is a Linux kernel module; the model takes the usual LP64 kernel, where
  \<^verbatim>\<open>unsigned long\<close> and \<^verbatim>\<open>u64\<close> are both 64 bits wide and \<^verbatim>\<open>uint\<close> is 32 bits wide.
  Addition, subtraction and multiplication on words wrap modulo \<open>2 ^ 64\<close>, as the C
  operations on unsigned operands do.
\<close>

type_synonym uint = "32 word"
type_synonym u64 = "64 word"
type_synonym ulong = "64 word"

text \<open>
  What can stop the module's code: an unsigned division whose divisor is zero traps, and
  the workqueue calls dereference the handle they are given.
\<close>

datatype fault = Divide_error | Null_dereference

text \<open>The C operator \<^verbatim>\<open>/\<close> on two \<^verbatim>\<open>unsigned long\<close> operands.\<close>

definition udiv :: "ulong \<Rightarrow> ulong \<Rightarrow> fault + ulong" where
  "udiv a b = (if b = 0 then Inl Divide_error else Inr (a div b))"

section \<open>Kernel declarations the module reads\<close>

text \<open>
  The enumeration \<^verbatim>\<open>enum cpu_usage_stat\<close> of \<^verbatim>\<open>linux/kernel_stat.h\<close>, in the order of the
  kernel header (without \<^verbatim>\<open>CONFIG_SCHED_CORE\<close>); \<^verbatim>\<open>NR_STATS\<close> is its last enumerator.
  No theorem below depends on the numbering, only on which indices the \<^verbatim>\<open>switch\<close> names.
\<close>

definition CPUTIME_USER :: nat where "CPUTIME_USER = 0"
definition CPUTIME_NICE :: nat where "CPUTIME_NICE = 1"
definition CPUTIME_SYSTEM :: nat where "CPUTIME_SYSTEM = 2"
definition CPUTIME_SOFTIRQ :: nat where "CPUTIME_SOFTIRQ = 3"
definition CPUTIME_IRQ :: nat where "CPUTIME_IRQ = 4"
definition CPUTIME_IDLE :: nat where "CPUTIME_IDLE = 5"
definition CPUTIME_IOWAIT :: nat where "CPUTIME_IOWAIT = 6"
definition CPUTIME_STEAL :: nat where "CPUTIME_STEAL = 7"
definition CPUTIME_GUEST :: nat where "CPUTIME_GUEST = 8"
definition CPUTIME_GUEST_NICE :: nat where "CPUTIME_GUEST_NICE = 9"
definition NR_STATS :: nat where "NR_STATS = 10"

text \<open>\<^verbatim>\<open>struct kernel_cpustat { u64 cpustat[NR_STATS]; }\<close>: the array as a function of the index.\<close>

record kernel_cpustat =
  cpustat :: "nat \<Rightarrow> u64"

text \<open>
  What the kernel shows at the moment of one call of \<^verbatim>\<open>get_cpu_stats\<close>: the identifiers
  that \<^verbatim>\<open>for_each_online_cpu\<close> visits, in the order it visits them, and the per-CPU
  statistics \<^verbatim>\<open>kcpustat_cpu(cpu)\<close>.
\<close>

record cpu_source =
  cpu_online_mask :: "nat list"
  kcpustat_cpu :: "nat \<Rightarrow> kernel_cpustat"

section \<open>get_cpu_stats\<close>

text \<open>The two output parameters of \<^verbatim>\<open>get_cpu_stats\<close>.\<close>

record snapshot =
  total_jiffies :: ulong
  relevant_jiffies :: ulong

text \<open>The labels of the \<^verbatim>\<open>switch (index)\<close>; every other index falls through the switch.\<close>

definition relevant_stat :: "nat \<Rightarrow> bool" where
  "relevant_stat index \<longleftrightarrow>
     index = CPUTIME_USER \<or> index = CPUTIME_NICE \<or> index = CPUTIME_SYSTEM \<or>
     index = CPUTIME_IRQ \<or> index = CPUTIME_SOFTIRQ \<or> index = CPUTIME_STEAL"

text \<open>The body of the inner loop, for one \<^verbatim>\<open>index\<close>.\<close>

definition count_stat :: "kernel_cpustat \<Rightarrow> nat \<Rightarrow> snapshot \<Rightarrow> snapshot" where
  "count_stat cpu_stats index acc =
     (let current_stat = cpustat cpu_stats index;
          acc1 = (if relevant_stat index
                  then acc\<lparr>relevant_jiffies := relevant_jiffies acc + current_stat\<rparr>
                  else acc)
      in acc1\<lparr>total_jiffies := total_jiffies acc1 + current_stat\<rparr>)"

text \<open>The body of the outer loop, for one \<^verbatim>\<open>cpu_id\<close>: the inner loop over \<open>0 \<le> index < NR_STATS\<close>.\<close>

definition count_cpu :: "cpu_source \<Rightarrow> nat \<Rightarrow> snapshot \<Rightarrow> snapshot" where
  "count_cpu src cpu_id acc = fold (count_stat (kcpustat_cpu src cpu_id)) [0..<NR_STATS] acc"

definition get_cpu_stats :: "cpu_source \<Rightarrow> snapshot" where
  "get_cpu_stats src =
     fold (count_cpu src) (cpu_online_mask src) \<lparr>total_jiffies = 0, relevant_jiffies = 0\<rparr>"

text \<open>
  The sums the loops would give in unbounded arithmetic; they serve to state what the
  wrapping accumulators hold.
\<close>

definition exact_total :: "cpu_source \<Rightarrow> nat" where
  "exact_total src =
     (\<Sum>cpu_id\<leftarrow>cpu_online_mask src. \<Sum>index\<leftarrow>[0..<NR_STATS].
        unat (cpustat (kcpustat_cpu src cpu_id) index))"

definition exact_relevant :: "cpu_source \<Rightarrow> nat" where
  "exact_relevant src =
     (\<Sum>cpu_id\<leftarrow>cpu_online_mask src. \<Sum>index\<leftarrow>[0..<NR_STATS].
        if relevant_stat index then unat (cpustat (kcpustat_cpu src cpu_id) index) else 0)"

section \<open>The usage computation of report_work_main\<close>

text \<open>
  The two differences and the value printed with \<^verbatim>\<open>%lu\<close>, computed from the last counters
  (\<open>previous\<close>) and the ones just fetched (\<open>current\<close>).
\<close>

record usage =
  total_jiffies_diff :: ulong
  relevant_jiffies_diff :: ulong
  percent :: ulong

definition compute_usage :: "snapshot \<Rightarrow> snapshot \<Rightarrow> fault + usage" where
  "compute_usage previous current =
     (let tdiff = total_jiffies current - total_jiffies previous;
          rdiff = relevant_jiffies current - relevant_jiffies previous
      in case (if tdiff > 0 then udiv (100 * rdiff) tdiff else Inr 0) of
           Inl f \<Rightarrow> Inl f
         | Inr p \<Rightarrow>
             Inr \<lparr>total_jiffies_diff = tdiff, relevant_jiffies_diff = rdiff, percent = p\<rparr>)"

section \<open>Module state, kernel log and the delayed work\<close>

datatype level = KERN_INFO | KERN_ERR

datatype printk_arg = U uint | LU ulong

text \<open>One kernel log line: level, format (without prefix and newline) and arguments.\<close>

datatype log_line = Log level string "printk_arg list"

type_synonym workqueue = nat

text \<open>
  The module's global variables, followed by the part of the kernel the module acts on:
  the delayed work item \<^verbatim>\<open>cpu_usage_report_work\<close> (pending on a queue with a delay, or
  not pending), the workqueues that are allocated, and the kernel log.
\<close>

record system =
  cpu_usage_report_period :: uint
  cpu_usage_report_work_queue :: "workqueue option"
  should_work_still_run :: bool
  last_total_jiffies :: ulong
  last_relevant_jiffies :: ulong
  cpu_usage_report_work :: "(workqueue \<times> ulong) option"
  workqueues :: "workqueue list"
  dmesg :: "log_line list"

text \<open>The module as loaded, before \<^verbatim>\<open>cpu_usage_init\<close> runs, with the period parameter given.\<close>

definition module_load :: "uint \<Rightarrow> log_line list \<Rightarrow> system" where
  "module_load period lg =
     \<lparr>cpu_usage_report_period = period, cpu_usage_report_work_queue = None,
      should_work_still_run = True, last_total_jiffies = 0, last_relevant_jiffies = 0,
      cpu_usage_report_work = None, workqueues = [], dmesg = lg\<rparr>"

definition cpu_usage_print_info :: "string \<Rightarrow> printk_arg list \<Rightarrow> system \<Rightarrow> system" where
  "cpu_usage_print_info fmt args s = s\<lparr>dmesg := dmesg s @ [Log KERN_INFO fmt args]\<rparr>"

definition cpu_usage_print_error :: "string \<Rightarrow> printk_arg list \<Rightarrow> system \<Rightarrow> system" where
  "cpu_usage_print_error fmt args s = s\<lparr>dmesg := dmesg s @ [Log KERN_ERR fmt args]\<rparr>"

text \<open>
  The kernel's workqueue interface, by its contract. \<^verbatim>\<open>queue_delayed_work\<close> arms the work
  unless it is pending already; \<^verbatim>\<open>cancel_delayed_work_sync\<close> returns with the work neither
  pending nor running; \<^verbatim>\<open>destroy_workqueue\<close> releases the queue. A tick runs as one step,
  so no tick is in flight when another function of the module runs.
\<close>

definition queue_delayed_work :: "workqueue option \<Rightarrow> ulong \<Rightarrow> system \<Rightarrow> fault + system" where
  "queue_delayed_work wq delay s =
     (case wq of
        None \<Rightarrow> Inl Null_dereference
      | Some q \<Rightarrow>
          Inr (if cpu_usage_report_work s = None
               then s\<lparr>cpu_usage_report_work := Some (q, delay)\<rparr> else s))"

definition cancel_delayed_work_sync :: "system \<Rightarrow> system" where
  "cancel_delayed_work_sync s = s\<lparr>cpu_usage_report_work := None\<rparr>"

definition destroy_workqueue :: "workqueue option \<Rightarrow> system \<Rightarrow> fault + system" where
  "destroy_workqueue wq s =
     (case wq of
        None \<Rightarrow> Inl Null_dereference
      | Some q \<Rightarrow> Inr (s\<lparr>workqueues := removeAll q (workqueues s)\<rparr>))"

text \<open>
  \<^verbatim>\<open>HZ * cpu_usage_report_period\<close>: the product is taken in \<^verbatim>\<open>unsigned int\<close> and widened to the
  \<^verbatim>\<open>unsigned long\<close> delay parameter. \<^verbatim>\<open>HZ\<close> is a constant of the kernel build and a parameter
  here.
\<close>

definition report_delay :: "uint \<Rightarrow> system \<Rightarrow> ulong" where
  "report_delay HZ s = ucast (HZ * cpu_usage_report_period s)"

section \<open>report_work_main\<close>

definition report_work_main :: "uint \<Rightarrow> cpu_source \<Rightarrow> system \<Rightarrow> fault + system" where
  "report_work_main HZ src s =
     (let current = get_cpu_stats src;
          previous = \<lparr>total_jiffies = last_total_jiffies s,
                      relevant_jiffies = last_relevant_jiffies s\<rparr>
      in case compute_usage previous current of
           Inl f \<Rightarrow> Inl f
         | Inr u \<Rightarrow>
             (let s1 = cpu_usage_print_info
                         ''average CPU load in last %u seconds (all cores averaged): %lu%%''
                         [U (cpu_usage_report_period s), LU (percent u)] s;
                  s2 = s1\<lparr>last_total_jiffies := total_jiffies current,
                          last_relevant_jiffies := relevant_jiffies current\<rparr>
              in if should_work_still_run s2
                 then queue_delayed_work (cpu_usage_report_work_queue s2) (report_delay HZ s2) s2
                 else Inr s2))"

text \<open>
  The worker: when the delay of the pending work has passed, the kernel clears the pending
  state and calls the work function; with nothing pending, no tick runs.
\<close>

definition timer_expiry :: "uint \<Rightarrow> cpu_source \<Rightarrow> system \<Rightarrow> fault + system" where
  "timer_expiry HZ src s =
     (case cpu_usage_report_work s of
        None \<Rightarrow> Inr s
      | Some w \<Rightarrow> report_work_main HZ src (s\<lparr>cpu_usage_report_work := None\<rparr>))"

text \<open>A sequence of later moments, each with the counters the kernel shows then.\<close>

fun run_worker :: "uint \<Rightarrow> cpu_source list \<Rightarrow> system \<Rightarrow> fault + system" where
  "run_worker HZ [] s = Inr s"
| "run_worker HZ (src # srcs) s =
     (case timer_expiry HZ src s of
        Inl f \<Rightarrow> Inl f
      | Inr s1 \<Rightarrow> run_worker HZ srcs s1)"

text \<open>
  The reports the specification describes for a run of ticks: every tick compares the
  snapshot it samples with the snapshot of the tick before it (the first tick with the
  baseline it starts from) and prints one line.
\<close>

fun expected_reports :: "uint \<Rightarrow> snapshot \<Rightarrow> snapshot list \<Rightarrow> log_line list" where
  "expected_reports period previous [] = []"
| "expected_reports period previous (current # rest) =
     (case compute_usage previous current of
        Inl f \<Rightarrow> []
      | Inr u \<Rightarrow>
          Log KERN_INFO ''average CPU load in last %u seconds (all cores averaged): %lu%%''
            [U period, LU (percent u)] # expected_reports period current rest)"

section \<open>cpu_usage_init and cpu_usage_exit\<close>

definition EAGAIN :: int where "EAGAIN = 11"

text \<open>
  \<open>alloc\<close> is what \<^verbatim>\<open>alloc_workqueue\<close> returns: \<open>None\<close> for \<^verbatim>\<open>NULL\<close>, otherwise the handle of
  the queue the kernel has allocated.
\<close>

definition cpu_usage_init ::
    "uint \<Rightarrow> workqueue option \<Rightarrow> cpu_source \<Rightarrow> system \<Rightarrow> fault + (int \<times> system)" where
  "cpu_usage_init HZ alloc src s =
     (let s1 = cpu_usage_print_info ''enabled with period of %u seconds''
                 [U (cpu_usage_report_period s)] s;
          s2 = s1\<lparr>cpu_usage_report_work_queue := alloc,
                  workqueues := (case alloc of None \<Rightarrow> workqueues s1
                                 | Some q \<Rightarrow> q # workqueues s1)\<rparr>
      in if cpu_usage_report_work_queue s2 = None
         then Inr (- EAGAIN,
                   cpu_usage_print_error
                     ''could not create a workqueue for periodic reports, aborting...'' [] s2)
         else
           (let first = get_cpu_stats src;
                s3 = s2\<lparr>last_total_jiffies := total_jiffies first,
                        last_relevant_jiffies := relevant_jiffies first\<rparr>
            in case queue_delayed_work (cpu_usage_report_work_queue s3) (report_delay HZ s3) s3 of
                 Inl f \<Rightarrow> Inl f
               | Inr s4 \<Rightarrow> Inr (0, s4)))"

definition cpu_usage_exit :: "system \<Rightarrow> fault + system" where
  "cpu_usage_exit s =
     (let s1 = s\<lparr>should_work_still_run := False\<rparr>;
          s2 = cpu_usage_print_info ''waiting for report work to end...'' [] s1;
          s3 = cancel_delayed_work_sync s2
      in case destroy_workqueue (cpu_usage_report_work_queue s3) s3 of
           Inl f \<Rightarrow> Inl f
         | Inr s4 \<Rightarrow>
             Inr (cpu_usage_print_info ''disabled reporting and cleaned-up the module'' [] s4))"

section \<open>Sample inputs\<close>

text \<open>
  A kernel state with core 0 online, showing the given user and idle times and zero in every
  other category; and the module as it is after a successful start with period 10 on queue 1,
  with the baseline (1000, 200) and the report work armed.
\<close>

definition one_core :: "u64 \<Rightarrow> u64 \<Rightarrow> cpu_source" where
  "one_core user idle =
     \<lparr>cpu_online_mask = [0],
      kcpustat_cpu = (\<lambda>cpu_id. \<lparr>cpustat = (\<lambda>index.
         if index = CPUTIME_USER then user else if index = CPUTIME_IDLE then idle else 0)\<rparr>)\<rparr>"

definition armed_module :: system where
  "armed_module =
     \<lparr>cpu_usage_report_period = 10, cpu_usage_report_work_queue = Some 1,
      should_work_still_run = True, last_total_jiffies = 1000, last_relevant_jiffies = 200,
      cpu_usage_report_work = Some (1, 2500), workqueues = [1], dmesg = []\<rparr>"

section \<open>Properties of the usage computation\<close>

text \<open>
  The division is guarded, so the computation never faults, and its three results have a
  closed form.
\<close>

lemma compute_usage_Inr:
  "compute_usage previous current =
     Inr \<lparr>total_jiffies_diff = total_jiffies current - total_jiffies previous,
          relevant_jiffies_diff = relevant_jiffies current - relevant_jiffies previous,
          percent = (if total_jiffies current - total_jiffies previous = 0 then 0
                     else (100 * (relevant_jiffies current - relevant_jiffies previous)) div
                          (total_jiffies current - total_jiffies previous))\<rparr>"
  by (simp add: compute_usage_def udiv_def Let_def word_greater_zero_iff)

lemma uint_diff_wrap:
  "uint (a - b :: ulong) = (uint a - uint b) mod 2 ^ 64"
  by (simp add: uint_word_ariths)

lemma unat_times100:
  "unat (100 * r :: ulong) = (100 * unat r) mod 2 ^ 64"
  by (simp add: unat_word_ariths)

lemma uint_times100:
  "uint (100 * r :: ulong) = (100 * uint r) mod 2 ^ 64"
  by (simp add: uint_word_ariths)

lemma percent_le_100:
  fixes r t :: ulong
  assumes "r \<le> t"
  shows "(100 * r) div t \<le> 100"
proof -
  have "unat (100 * r) \<le> 100 * unat r"
    by (simp add: unat_times100)
  also have "\<dots> \<le> 100 * unat t"
    using assms by (simp add: word_le_nat_alt)
  finally have "unat (100 * r) div unat t \<le> (100 * unat t) div unat t"
    by (rule div_le_mono)
  also have "\<dots> \<le> 100"
    by simp
  finally have "unat ((100 * r) div t) \<le> unat (100 :: ulong)"
    by (simp add: unat_div)
  then show ?thesis
    by (simp only: word_le_nat_alt)
qed

lemma percent_le_exact:
  fixes r t :: ulong
  shows "unat ((100 * r) div t) \<le> (100 * unat r) div unat t"
proof -
  have "unat (100 * r) \<le> 100 * unat r"
    by (simp add: unat_times100)
  then have "unat (100 * r) div unat t \<le> (100 * unat r) div unat t"
    by (rule div_le_mono)
  then show ?thesis
    by (simp add: unat_div)
qed

lemma uint_percent:
  fixes r t :: ulong
  shows "uint ((100 * r) div t) = ((100 * uint r) mod 2 ^ 64) div uint t"
  by (simp add: uint_div uint_times100)

text \<open>
  C1 (as amended). For every pair of snapshots the computation returns without a fault;
  the two differences are the subtractions modulo \<open>2 ^ 64\<close>; the percent is 0 when the total
  difference is 0 and otherwise the truncating quotient of the product \<open>100 * relevant
  difference\<close>, itself reduced modulo \<open>2 ^ 64\<close>, by the total difference. Whenever that
  product stays below \<open>2 ^ 64\<close> the percent is the quotient of the exact product.
\<close>

theorem usage_wrapping_formula:
  "\<exists>u. compute_usage previous current = Inr u \<and>
     uint (total_jiffies_diff u) =
       (uint (total_jiffies current) - uint (total_jiffies previous)) mod 2 ^ 64 \<and>
     uint (relevant_jiffies_diff u) =
       (uint (relevant_jiffies current) - uint (relevant_jiffies previous)) mod 2 ^ 64 \<and>
     uint (percent u) =
       (if uint (total_jiffies_diff u) = 0 then 0
        else ((100 * uint (relevant_jiffies_diff u)) mod 2 ^ 64) div uint (total_jiffies_diff u)) \<and>
     (100 * uint (relevant_jiffies_diff u) < 2 ^ 64 \<longrightarrow>
        uint (percent u) =
          (if uint (total_jiffies_diff u) = 0 then 0
           else (100 * uint (relevant_jiffies_diff u)) div uint (total_jiffies_diff u)))"
proof -
  define t where "t = total_jiffies current - total_jiffies previous"
  define r where "r = relevant_jiffies current - relevant_jiffies previous"
  define p where "p = (if t = 0 then 0 else (100 * r) div t)"
  have "compute_usage previous current =
          Inr \<lparr>total_jiffies_diff = t, relevant_jiffies_diff = r, percent = p\<rparr>"
    unfolding t_def r_def p_def by (rule compute_usage_Inr)
  moreover have "uint t = (uint (total_jiffies current) - uint (total_jiffies previous)) mod 2 ^ 64"
    unfolding t_def by (rule uint_diff_wrap)
  moreover have
    "uint r = (uint (relevant_jiffies current) - uint (relevant_jiffies previous)) mod 2 ^ 64"
    unfolding r_def by (rule uint_diff_wrap)
  moreover have "uint p = (if uint t = 0 then 0 else ((100 * uint r) mod 2 ^ 64) div uint t)"
    by (simp add: p_def uint_percent)
  moreover have "100 * uint r < 2 ^ 64 \<longrightarrow>
      uint p = (if uint t = 0 then 0 else (100 * uint r) div uint t)"
    by (simp add: p_def uint_percent)
  ultimately show ?thesis
    by (intro exI [of _ "\<lparr>total_jiffies_diff = t, relevant_jiffies_diff = r, percent = p\<rparr>"])
       simp
qed

text \<open>
  Scenario A of the specification: from (1000, 200) to (1500, 400) the differences are 500
  and 200 and the percent is 40.
\<close>

theorem usage_wrapping_formula_witness:
  "\<exists>u. compute_usage \<lparr>total_jiffies = 1000, relevant_jiffies = 200\<rparr>
                       \<lparr>total_jiffies = 1500, relevant_jiffies = 400\<rparr> = Inr u \<and>
       100 * uint (relevant_jiffies_diff u) < 2 ^ 64 \<and>
       uint (total_jiffies_diff u) = 500 \<and> uint (relevant_jiffies_diff u) = 200 \<and>
       uint (percent u) = 40"
  using usage_wrapping_formula
          [of "\<lparr>total_jiffies = 1000, relevant_jiffies = 200\<rparr>"
              "\<lparr>total_jiffies = 1500, relevant_jiffies = 400\<rparr>"]
  by (simp add: compute_usage_Inr)

text \<open>
  With a relevant difference of \<open>2 * 10 ^ 17\<close> out of a total difference of \<open>4 * 10 ^ 17\<close> the
  product by 100 exceeds \<open>2 ^ 64\<close>: the code reports 3, while the exact quotient is 50.
\<close>

theorem usage_exact_quotient_counterexample:
  "compute_usage \<lparr>total_jiffies = 0, relevant_jiffies = 0\<rparr>
                 \<lparr>total_jiffies = 400000000000000000, relevant_jiffies = 200000000000000000\<rparr> =
     Inr \<lparr>total_jiffies_diff = 400000000000000000, relevant_jiffies_diff = 200000000000000000,
          percent = 3\<rparr> \<and>
   (100 * 200000000000000000) div 400000000000000000 = (50 :: int) \<and>
   uint (3 :: ulong) \<noteq> 50"
  by (simp add: compute_usage_Inr)

text \<open>
  Both counters grow from (10, 0) to (11, 5), as they do when a core with 5 idle units goes
  offline while another core works for 5 units and idles for 1; the percent is 500.
\<close>

theorem percent_over_100_counterexample:
  "total_jiffies \<lparr>total_jiffies = 10, relevant_jiffies = 0\<rparr> \<le>
     total_jiffies \<lparr>total_jiffies = 11, relevant_jiffies = 5\<rparr> \<and>
   relevant_jiffies \<lparr>total_jiffies = 10, relevant_jiffies = 0\<rparr> \<le>
     relevant_jiffies \<lparr>total_jiffies = 11, relevant_jiffies = 5\<rparr> \<and>
   compute_usage \<lparr>total_jiffies = 10, relevant_jiffies = 0\<rparr>
                 \<lparr>total_jiffies = 11, relevant_jiffies = 5\<rparr> =
     Inr \<lparr>total_jiffies_diff = 1, relevant_jiffies_diff = 5, percent = 500\<rparr> \<and>
   \<not> (500 :: ulong) \<le> 100"
  by (simp add: compute_usage_Inr)

text \<open>
  C2 (as amended). For every pair of snapshots whose total and relevant counters did not
  decrease and whose relevant difference is at most the total difference, the computation
  returns a percent between 0 and 100. The bound needs no proviso on the product: it holds
  also when \<open>100 * relevant difference\<close> wraps.
\<close>

theorem percent_in_range:
  assumes "total_jiffies previous \<le> total_jiffies current"
    and "relevant_jiffies previous \<le> relevant_jiffies current"
    and "relevant_jiffies current - relevant_jiffies previous \<le>
         total_jiffies current - total_jiffies previous"
  shows "\<exists>u. compute_usage previous current = Inr u \<and> 0 \<le> percent u \<and> percent u \<le> 100"
proof -
  let ?t = "total_jiffies current - total_jiffies previous"
  let ?r = "relevant_jiffies current - relevant_jiffies previous"
  have "(100 * ?r) div ?t \<le> 100"
    using assms(3) by (rule percent_le_100)
  then show ?thesis
    by (simp add: compute_usage_Inr)
qed

text \<open>
  The hypotheses hold in scenario A.
\<close>

theorem percent_in_range_witness:
  "\<exists>u. compute_usage \<lparr>total_jiffies = 1000, relevant_jiffies = 200\<rparr>
                       \<lparr>total_jiffies = 1500, relevant_jiffies = 400\<rparr> = Inr u \<and>
       0 \<le> percent u \<and> percent u \<le> 100"
proof -
  let ?p = "\<lparr>total_jiffies = 1000, relevant_jiffies = 200 :: ulong\<rparr>"
  let ?c = "\<lparr>total_jiffies = 1500, relevant_jiffies = 400 :: ulong\<rparr>"
  have 1: "total_jiffies ?p \<le> total_jiffies ?c" by simp
  have 2: "relevant_jiffies ?p \<le> relevant_jiffies ?c" by simp
  have 3: "relevant_jiffies ?c - relevant_jiffies ?p \<le> total_jiffies ?c - total_jiffies ?p"
    by simp
  show ?thesis by (rule percent_in_range [OF 1 2 3])
qed

text \<open>
  C3. For every pair of snapshots where the current total is below the previous total, the
  computation returns without a fault: the total difference is the wrapped value
  \<open>2 ^ 64 + current - previous\<close>, which is not zero, and the percent is some value of the
  unsigned range.
\<close>

theorem wrapped_total_no_fault:
  assumes "total_jiffies current < total_jiffies previous"
  shows "\<exists>u. compute_usage previous current = Inr u \<and>
           uint (total_jiffies_diff u) =
             2 ^ 64 + uint (total_jiffies current) - uint (total_jiffies previous) \<and>
           0 < total_jiffies_diff u \<and>
           0 \<le> uint (percent u) \<and> uint (percent u) < 2 ^ 64"
proof -
  let ?d = "total_jiffies current - total_jiffies previous"
  have lt: "uint (total_jiffies current) < uint (total_jiffies previous)"
    using assms by (simp add: word_less_def)
  have "uint ?d = 2 ^ 64 + uint (total_jiffies current) - uint (total_jiffies previous)"
    using lt by (simp add: uint_sub_if')
  moreover have "0 < ?d"
    using assms by (simp add: word_greater_zero_iff)
  moreover have "uint (p :: ulong) < 2 ^ 64" for p
    using uint_bounded [of p] by simp
  ultimately show ?thesis
    by (simp add: compute_usage_Inr)
qed

text \<open>
  Scenario C of the specification: previous total 1000, current total 999; the total
  difference wraps to \<open>2 ^ 64 - 1\<close>.
\<close>

theorem wrapped_total_no_fault_witness:
  "total_jiffies \<lparr>total_jiffies = 999, relevant_jiffies = 200\<rparr> <
     total_jiffies \<lparr>total_jiffies = 1000, relevant_jiffies = 200 :: ulong\<rparr> \<and>
   (\<exists>u. compute_usage \<lparr>total_jiffies = 1000, relevant_jiffies = 200\<rparr>
                        \<lparr>total_jiffies = 999, relevant_jiffies = 200\<rparr> = Inr u \<and>
         uint (total_jiffies_diff u) = 18446744073709551615 \<and> uint (percent u) < 2 ^ 64)"
proof -
  let ?p = "\<lparr>total_jiffies = 1000, relevant_jiffies = 200 :: ulong\<rparr>"
  let ?c = "\<lparr>total_jiffies = 999, relevant_jiffies = 200 :: ulong\<rparr>"
  have h: "total_jiffies ?c < total_jiffies ?p" by simp
  from wrapped_total_no_fault [OF h] show ?thesis by auto
qed

text \<open>
  C5. For every snapshot \<open>s\<close>, the computation on the pair \<open>(s, s)\<close> returns zero differences
  and the percent 0.
\<close>

theorem same_snapshot_zero_percent:
  "compute_usage s s = Inr \<lparr>total_jiffies_diff = 0, relevant_jiffies_diff = 0, percent = 0\<rparr>"
  by (simp add: compute_usage_Inr)


text \<open>
  Scenario B of the specification: the pair ((1000, 200), (1000, 200)) gives percent 0.
\<close>

theorem same_snapshot_zero_percent_witness:
  "compute_usage \<lparr>total_jiffies = 1000, relevant_jiffies = 200\<rparr>
                 \<lparr>total_jiffies = 1000, relevant_jiffies = 200\<rparr> =
     Inr \<lparr>total_jiffies_diff = 0, relevant_jiffies_diff = 0, percent = 0\<rparr>"
  by (rule same_snapshot_zero_percent)

text \<open>
  C10 (as amended). The product \<open>100 * relevant difference\<close> is taken in wrapping 64-bit
  arithmetic before the division: with a nonzero total difference the percent is the
  truncating quotient of the product reduced modulo \<open>2 ^ 64\<close>. The percent is never above
  the exact quotient, and for every pair whose relevant difference is at most the total
  difference it is at most 100, whether or not the product wraps. For every pair with
  \<open>0 < relevant difference \<le> total difference\<close> and the exact product below \<open>2 ^ 64\<close> the
  percent is the exact quotient; when the exact product reaches \<open>2 ^ 64\<close> it can be smaller
  than the exact quotient.
\<close>

theorem wrapped_product_percent:
  "(\<forall>previous current. \<exists>u. compute_usage previous current = Inr u \<and>
      (total_jiffies_diff u \<noteq> 0 \<longrightarrow>
         percent u = (100 * relevant_jiffies_diff u) div total_jiffies_diff u \<and>
         unat (100 * relevant_jiffies_diff u) = (100 * unat (relevant_jiffies_diff u)) mod 2 ^ 64 \<and>
         unat (percent u) =
           ((100 * unat (relevant_jiffies_diff u)) mod 2 ^ 64) div unat (total_jiffies_diff u)) \<and>
      unat (percent u) \<le> (100 * unat (relevant_jiffies_diff u)) div unat (total_jiffies_diff u) \<and>
      (relevant_jiffies_diff u \<le> total_jiffies_diff u \<longrightarrow> percent u \<le> 100) \<and>
      (0 < relevant_jiffies_diff u \<and> relevant_jiffies_diff u \<le> total_jiffies_diff u \<and>
       100 * unat (relevant_jiffies_diff u) < 2 ^ 64 \<longrightarrow>
         unat (percent u) = (100 * unat (relevant_jiffies_diff u)) div unat (total_jiffies_diff u))) \<and>
   (\<exists>previous current u. compute_usage previous current = Inr u \<and>
      relevant_jiffies_diff u \<le> total_jiffies_diff u \<and>
      2 ^ 64 \<le> 100 * unat (relevant_jiffies_diff u) \<and>
      unat (percent u) < (100 * unat (relevant_jiffies_diff u)) div unat (total_jiffies_diff u))"
proof (intro conjI allI)
  fix previous current :: snapshot
  define t where "t = total_jiffies current - total_jiffies previous"
  define r where "r = relevant_jiffies current - relevant_jiffies previous"
  define p where "p = (if t = 0 then 0 else (100 * r) div t)"
  have cu: "compute_usage previous current =
          Inr \<lparr>total_jiffies_diff = t, relevant_jiffies_diff = r, percent = p\<rparr>"
    unfolding t_def r_def p_def by (rule compute_usage_Inr)
  have a: "t \<noteq> 0 \<longrightarrow> p = (100 * r) div t \<and> unat (100 * r) = (100 * unat r) mod 2 ^ 64 \<and>
             unat p = ((100 * unat r) mod 2 ^ 64) div unat t"
    by (simp add: p_def unat_div unat_times100)
  have b: "unat p \<le> (100 * unat r) div unat t"
    by (simp add: p_def percent_le_exact)
  have c: "r \<le> t \<longrightarrow> p \<le> 100"
    by (simp add: p_def percent_le_100)
  have d: "0 < r \<and> r \<le> t \<and> 100 * unat r < 2 ^ 64 \<longrightarrow> unat p = (100 * unat r) div unat t"
  proof (intro impI, elim conjE)
    assume r: "0 < r" and rt: "r \<le> t" and small: "100 * unat r < 2 ^ 64"
    from r rt have "t \<noteq> 0" by auto
    then have "p = (100 * r) div t" by (simp add: p_def)
    then show "unat p = (100 * unat r) div unat t"
      using small by (simp add: unat_div unat_times100)
  qed
  let ?u = "\<lparr>total_jiffies_diff = t, relevant_jiffies_diff = r, percent = p\<rparr>"
  have "compute_usage previous current = Inr ?u \<and>
      (total_jiffies_diff ?u \<noteq> 0 \<longrightarrow>
         percent ?u = (100 * relevant_jiffies_diff ?u) div total_jiffies_diff ?u \<and>
         unat (100 * relevant_jiffies_diff ?u) =
           (100 * unat (relevant_jiffies_diff ?u)) mod 2 ^ 64 \<and>
         unat (percent ?u) =
           ((100 * unat (relevant_jiffies_diff ?u)) mod 2 ^ 64) div unat (total_jiffies_diff ?u)) \<and>
      unat (percent ?u) \<le>
        (100 * unat (relevant_jiffies_diff ?u)) div unat (total_jiffies_diff ?u) \<and>
      (relevant_jiffies_diff ?u \<le> total_jiffies_diff ?u \<longrightarrow> percent ?u \<le> 100) \<and>
      (0 < relevant_jiffies_diff ?u \<and> relevant_jiffies_diff ?u \<le> total_jiffies_diff ?u \<and>
       100 * unat (relevant_jiffies_diff ?u) < 2 ^ 64 \<longrightarrow>
         unat (percent ?u) =
           (100 * unat (relevant_jiffies_diff ?u)) div unat (total_jiffies_diff ?u))"
    unfolding usage.select_convs using cu a b c d by blast
  then show "\<exists>u. compute_usage previous current = Inr u \<and>
      (total_jiffies_diff u \<noteq> 0 \<longrightarrow>
         percent u = (100 * relevant_jiffies_diff u) div total_jiffies_diff u \<and>
         unat (100 * relevant_jiffies_diff u) = (100 * unat (relevant_jiffies_diff u)) mod 2 ^ 64 \<and>
         unat (percent u) =
           ((100 * unat (relevant_jiffies_diff u)) mod 2 ^ 64) div unat (total_jiffies_diff u)) \<and>
      unat (percent u) \<le> (100 * unat (relevant_jiffies_diff u)) div unat (total_jiffies_diff u) \<and>
      (relevant_jiffies_diff u \<le> total_jiffies_diff u \<longrightarrow> percent u \<le> 100) \<and>
      (0 < relevant_jiffies_diff u \<and> relevant_jiffies_diff u \<le> total_jiffies_diff u \<and>
       100 * unat (relevant_jiffies_diff u) < 2 ^ 64 \<longrightarrow>
         unat (percent u) = (100 * unat (relevant_jiffies_diff u)) div unat (total_jiffies_diff u))"
    by (rule exI)
next
  let ?p = "\<lparr>total_jiffies = 0, relevant_jiffies = 0 :: ulong\<rparr>"
  let ?c = "\<lparr>total_jiffies = 400000000000000000, relevant_jiffies = 200000000000000000 :: ulong\<rparr>"
  let ?u = "\<lparr>total_jiffies_diff = 400000000000000000,
             relevant_jiffies_diff = 200000000000000000, percent = 3 :: ulong\<rparr>"
  have "compute_usage ?p ?c = Inr ?u"
    by (simp add: compute_usage_Inr)
  then show "\<exists>previous current u. compute_usage previous current = Inr u \<and>
      relevant_jiffies_diff u \<le> total_jiffies_diff u \<and>
      2 ^ 64 \<le> 100 * unat (relevant_jiffies_diff u) \<and>
      unat (percent u) < (100 * unat (relevant_jiffies_diff u)) div unat (total_jiffies_diff u)"
    by (intro exI [of _ ?p] exI [of _ ?c] exI [of _ ?u]) simp
qed

text \<open>
  All hypotheses hold in scenario A; from (0, 0) to \<open>(4 * 10 ^ 17, 2 * 10 ^ 17)\<close> the product
  wraps and the percent is 3, still at most 100.
\<close>

theorem wrapped_product_percent_witness:
  "(\<exists>u. compute_usage \<lparr>total_jiffies = 1000, relevant_jiffies = 200\<rparr>
                        \<lparr>total_jiffies = 1500, relevant_jiffies = 400\<rparr> = Inr u \<and>
         total_jiffies_diff u \<noteq> 0 \<and> 0 < relevant_jiffies_diff u \<and>
         relevant_jiffies_diff u \<le> total_jiffies_diff u \<and>
         100 * unat (relevant_jiffies_diff u) < 2 ^ 64 \<and>
         percent u \<le> 100 \<and> unat (percent u) = 40) \<and>
   (\<exists>u. compute_usage \<lparr>total_jiffies = 0, relevant_jiffies = 0\<rparr>
                        \<lparr>total_jiffies = 400000000000000000,
                         relevant_jiffies = 200000000000000000\<rparr> = Inr u \<and>
         relevant_jiffies_diff u \<le> total_jiffies_diff u \<and>
         2 ^ 64 \<le> 100 * unat (relevant_jiffies_diff u) \<and>
         percent u \<le> 100 \<and> unat (percent u) = 3)"
proof -
  have 1: "\<exists>u. compute_usage \<lparr>total_jiffies = 1000, relevant_jiffies = 200\<rparr>
                        \<lparr>total_jiffies = 1500, relevant_jiffies = 400\<rparr> = Inr u \<and>
         total_jiffies_diff u \<noteq> 0 \<and> 0 < relevant_jiffies_diff u \<and>
         relevant_jiffies_diff u \<le> total_jiffies_diff u \<and>
         100 * unat (relevant_jiffies_diff u) < 2 ^ 64 \<and>
         percent u \<le> 100 \<and> unat (percent u) = 40"
    using wrapped_product_percent [THEN conjunct1, rule_format,
            of "\<lparr>total_jiffies = 1000, relevant_jiffies = 200\<rparr>"
               "\<lparr>total_jiffies = 1500, relevant_jiffies = 400\<rparr>"]
    by (simp add: compute_usage_Inr)
  have 2: "\<exists>u. compute_usage \<lparr>total_jiffies = 0, relevant_jiffies = 0\<rparr>
                        \<lparr>total_jiffies = 400000000000000000,
                         relevant_jiffies = 200000000000000000\<rparr> = Inr u \<and>
         relevant_jiffies_diff u \<le> total_jiffies_diff u \<and>
         2 ^ 64 \<le> 100 * unat (relevant_jiffies_diff u) \<and>
         percent u \<le> 100 \<and> unat (percent u) = 3"
    using wrapped_product_percent [THEN conjunct1, rule_format,
            of "\<lparr>total_jiffies = 0, relevant_jiffies = 0\<rparr>"
               "\<lparr>total_jiffies = 400000000000000000, relevant_jiffies = 200000000000000000\<rparr>"]
    by (simp add: compute_usage_Inr)
  show ?thesis
    by (rule conjI [OF 1 2])
qed

text \<open>
  No pair whose relevant difference is at most the total difference and whose product
  wraps is reported with a percent above 100: the wrapped percent is not arbitrary.
\<close>

theorem wrapped_percent_not_arbitrary_counterexample:
  "\<not> (\<exists>previous current u. compute_usage previous current = Inr u \<and>
        relevant_jiffies_diff u \<le> total_jiffies_diff u \<and>
        2 ^ 64 \<le> 100 * unat (relevant_jiffies_diff u) \<and>
        100 < percent u)"
proof
  assume "\<exists>previous current u. compute_usage previous current = Inr u \<and>
        relevant_jiffies_diff u \<le> total_jiffies_diff u \<and>
        2 ^ 64 \<le> 100 * unat (relevant_jiffies_diff u) \<and>
        100 < percent u"
  then obtain previous current u where
    cu: "compute_usage previous current = Inr u" and
    le: "relevant_jiffies_diff u \<le> total_jiffies_diff u" and
    big: "100 < percent u"
    by blast
  define t where "t = total_jiffies current - total_jiffies previous"
  define r where "r = relevant_jiffies current - relevant_jiffies previous"
  have "compute_usage previous current =
          Inr \<lparr>total_jiffies_diff = t, relevant_jiffies_diff = r,
               percent = (if t = 0 then 0 else (100 * r) div t)\<rparr>"
    unfolding t_def r_def by (rule compute_usage_Inr)
  with cu have u: "u = \<lparr>total_jiffies_diff = t, relevant_jiffies_diff = r,
               percent = (if t = 0 then 0 else (100 * r) div t)\<rparr>"
    by simp
  from le have "r \<le> t"
    by (simp add: u)
  then have "(100 * r) div t \<le> 100"
    by (rule percent_le_100)
  then have "percent u \<le> 100"
    by (simp add: u)
  with big show False
    by simp
qed

section \<open>Properties of get_cpu_stats\<close>

text \<open>
  The accumulators of \<^verbatim>\<open>get_cpu_stats\<close> hold the exact sums reduced modulo \<open>2 ^ 64\<close>.
\<close>

lemma stat_indices: "[0..<NR_STATS] = [0, 1, 2, 3, 4, 5, 6, 7, 8, 9]"
  by (simp add: NR_STATS_def upt_rec)

lemma count_stat_total:
  "total_jiffies (count_stat cs i acc) = total_jiffies acc + cpustat cs i"
  by (simp add: count_stat_def Let_def)

lemma count_stat_relevant:
  "relevant_jiffies (count_stat cs i acc) =
     relevant_jiffies acc + (if relevant_stat i then cpustat cs i else 0)"
  by (simp add: count_stat_def Let_def)

lemma fold_count_stat_total:
  "total_jiffies (fold (count_stat cs) is acc) =
     total_jiffies acc + of_nat (\<Sum>i\<leftarrow>is. unat (cpustat cs i))"
  by (induction "is" arbitrary: acc) (simp_all add: count_stat_total)

lemma fold_count_stat_relevant:
  "relevant_jiffies (fold (count_stat cs) is acc) =
     relevant_jiffies acc + of_nat (\<Sum>i\<leftarrow>is. if relevant_stat i then unat (cpustat cs i) else 0)"
  by (induction "is" arbitrary: acc) (simp_all add: count_stat_relevant)

lemma fold_count_cpu_total:
  "total_jiffies (fold (count_cpu src) cpus acc) =
     total_jiffies acc +
     of_nat (\<Sum>cpu_id\<leftarrow>cpus. \<Sum>index\<leftarrow>[0..<NR_STATS]. unat (cpustat (kcpustat_cpu src cpu_id) index))"
  by (induction cpus arbitrary: acc) (simp_all add: count_cpu_def fold_count_stat_total)

lemma fold_count_cpu_relevant:
  "relevant_jiffies (fold (count_cpu src) cpus acc) =
     relevant_jiffies acc +
     of_nat (\<Sum>cpu_id\<leftarrow>cpus. \<Sum>index\<leftarrow>[0..<NR_STATS].
        if relevant_stat index then unat (cpustat (kcpustat_cpu src cpu_id) index) else 0)"
  by (induction cpus arbitrary: acc) (simp_all add: count_cpu_def fold_count_stat_relevant)

lemma get_cpu_stats_total: "total_jiffies (get_cpu_stats src) = of_nat (exact_total src)"
  by (simp add: get_cpu_stats_def exact_total_def fold_count_cpu_total)

lemma get_cpu_stats_relevant: "relevant_jiffies (get_cpu_stats src) = of_nat (exact_relevant src)"
  by (simp add: get_cpu_stats_def exact_relevant_def fold_count_cpu_relevant)

lemma exact_relevant_le_total: "exact_relevant src \<le> exact_total src"
  unfolding exact_relevant_def exact_total_def
  by (intro sum_list_mono) simp

text \<open>
  C4 (as amended). The snapshot that \<^verbatim>\<open>get_cpu_stats\<close> produces holds, modulo \<open>2 ^ 64\<close>, the
  sum over all categories of all online cores and the sum restricted to the six busy
  categories; the exact busy sum never exceeds the exact total sum; and whenever the exact
  total sum is below \<open>2 ^ 64\<close> (the total accumulator has not wrapped) the snapshot satisfies
  \<open>relevant \<le> total\<close>.
\<close>

theorem snapshot_relevant_le_total:
  "unat (total_jiffies (get_cpu_stats src)) = exact_total src mod 2 ^ 64 \<and>
   unat (relevant_jiffies (get_cpu_stats src)) = exact_relevant src mod 2 ^ 64 \<and>
   exact_relevant src \<le> exact_total src \<and>
   (exact_total src < 2 ^ 64 \<longrightarrow>
      relevant_jiffies (get_cpu_stats src) \<le> total_jiffies (get_cpu_stats src))"
proof -
  have t: "unat (total_jiffies (get_cpu_stats src)) = exact_total src mod 2 ^ 64"
    by (simp add: get_cpu_stats_total unat_of_nat)
  have r: "unat (relevant_jiffies (get_cpu_stats src)) = exact_relevant src mod 2 ^ 64"
    by (simp add: get_cpu_stats_relevant unat_of_nat)
  have le: "exact_relevant src \<le> exact_total src"
    by (rule exact_relevant_le_total)
  have "relevant_jiffies (get_cpu_stats src) \<le> total_jiffies (get_cpu_stats src)"
    if "exact_total src < 2 ^ 64"
  proof -
    from that le have "exact_relevant src < 2 ^ 64" by simp
    with that le show ?thesis
      unfolding word_le_nat_alt t r by simp
  qed
  with t r le show ?thesis by blast
qed

text \<open>
  Two online cores, each with 7 units of user time and 3 units of idle time.
\<close>

theorem snapshot_relevant_le_total_witness:
  "exact_total \<lparr>cpu_online_mask = [0, 1],
      kcpustat_cpu = (\<lambda>cpu. \<lparr>cpustat = (\<lambda>i. if i = CPUTIME_USER then 7
                                               else if i = CPUTIME_IDLE then 3 else 0)\<rparr>)\<rparr> < 2 ^ 64 \<and>
   get_cpu_stats \<lparr>cpu_online_mask = [0, 1],
      kcpustat_cpu = (\<lambda>cpu. \<lparr>cpustat = (\<lambda>i. if i = CPUTIME_USER then 7
                                               else if i = CPUTIME_IDLE then 3 else 0)\<rparr>)\<rparr> =
     \<lparr>total_jiffies = 20, relevant_jiffies = 14\<rparr> \<and>
   relevant_jiffies (get_cpu_stats \<lparr>cpu_online_mask = [0, 1],
      kcpustat_cpu = (\<lambda>cpu. \<lparr>cpustat = (\<lambda>i. if i = CPUTIME_USER then 7
                                               else if i = CPUTIME_IDLE then 3 else 0)\<rparr>)\<rparr>) \<le>
   total_jiffies (get_cpu_stats \<lparr>cpu_online_mask = [0, 1],
      kcpustat_cpu = (\<lambda>cpu. \<lparr>cpustat = (\<lambda>i. if i = CPUTIME_USER then 7
                                               else if i = CPUTIME_IDLE then 3 else 0)\<rparr>)\<rparr>)"
proof -
  let ?s = "\<lparr>cpu_online_mask = [0, 1],
      kcpustat_cpu = (\<lambda>cpu. \<lparr>cpustat = (\<lambda>i. if i = CPUTIME_USER then 7
                                               else if i = CPUTIME_IDLE then 3 else 0)\<rparr>)\<rparr>"
  have h: "exact_total ?s < 2 ^ 64"
    by (simp add: exact_total_def stat_indices CPUTIME_USER_def CPUTIME_IDLE_def)
  have v: "get_cpu_stats ?s = \<lparr>total_jiffies = 20, relevant_jiffies = 14\<rparr>"
    by (simp add: get_cpu_stats_def count_cpu_def stat_indices count_stat_def relevant_stat_def
          CPUTIME_USER_def CPUTIME_NICE_def CPUTIME_SYSTEM_def CPUTIME_IRQ_def
          CPUTIME_SOFTIRQ_def CPUTIME_STEAL_def CPUTIME_IDLE_def)
  have le: "relevant_jiffies (get_cpu_stats ?s) \<le> total_jiffies (get_cpu_stats ?s)"
    by (rule snapshot_relevant_le_total
          [of ?s, THEN conjunct2, THEN conjunct2, THEN conjunct2, THEN mp, OF h])
  show ?thesis
    by (rule conjI [OF h conjI [OF v le]])
qed

text \<open>
  One online core with \<open>2 ^ 63\<close> units of user time and \<open>2 ^ 63\<close> units of idle time: the total
  accumulator wraps to 0 while the relevant one holds \<open>2 ^ 63\<close>.
\<close>

theorem snapshot_total_wraps_counterexample:
  "get_cpu_stats \<lparr>cpu_online_mask = [0],
      kcpustat_cpu = (\<lambda>cpu. \<lparr>cpustat = (\<lambda>i. if i = CPUTIME_USER \<or> i = CPUTIME_IDLE
                                               then 9223372036854775808 else 0)\<rparr>)\<rparr> =
     \<lparr>total_jiffies = 0, relevant_jiffies = 9223372036854775808\<rparr> \<and>
   \<not> (9223372036854775808 :: ulong) \<le> 0"
  by (simp add: get_cpu_stats_def count_cpu_def stat_indices count_stat_def relevant_stat_def
        CPUTIME_USER_def CPUTIME_NICE_def CPUTIME_SYSTEM_def CPUTIME_IRQ_def CPUTIME_SOFTIRQ_def
        CPUTIME_STEAL_def CPUTIME_IDLE_def)

text \<open>
  The loops read \<^verbatim>\<open>cpustat\<close> only at the visited cores and at the indices below \<^verbatim>\<open>NR_STATS\<close>.
\<close>

lemma count_stat_cong:
  "cpustat cs' i = cpustat cs i \<Longrightarrow> count_stat cs' i = count_stat cs i"
  by (simp add: fun_eq_iff count_stat_def)

lemma count_cpu_cong:
  assumes "\<forall>i<NR_STATS. cpustat (kcpustat_cpu src' cpu) i = cpustat (kcpustat_cpu src cpu) i"
  shows "count_cpu src' cpu = count_cpu src cpu"
proof (rule ext)
  fix acc
  have "fold (count_stat (kcpustat_cpu src' cpu)) [0..<NR_STATS] acc =
        fold (count_stat (kcpustat_cpu src cpu)) [0..<NR_STATS] acc"
  proof (intro fold_cong refl)
    fix index
    assume "index \<in> set [0..<NR_STATS]"
    with assms have "cpustat (kcpustat_cpu src' cpu) index = cpustat (kcpustat_cpu src cpu) index"
      by simp
    then show "count_stat (kcpustat_cpu src' cpu) index = count_stat (kcpustat_cpu src cpu) index"
      by (rule count_stat_cong)
  qed
  then show "count_cpu src' cpu acc = count_cpu src cpu acc"
    by (simp add: count_cpu_def)
qed

text \<open>
  C9. With no core online \<^verbatim>\<open>get_cpu_stats\<close> returns the snapshot (0, 0); it has no failing branch.
  In general the total it returns is, modulo \<open>2 ^ 64\<close>, the sum of all counters of the cores
  online at the call, and the relevant value is the sum of their counters in the six busy
  categories. Nothing else is read: two kernel states with the same online cores and the
  same counters on them give the same snapshot.
\<close>

theorem sampler_sums_online_cores:
  "(cpu_online_mask src = [] \<longrightarrow>
      get_cpu_stats src = \<lparr>total_jiffies = 0, relevant_jiffies = 0\<rparr>) \<and>
   unat (total_jiffies (get_cpu_stats src)) =
     (\<Sum>cpu_id\<leftarrow>cpu_online_mask src. \<Sum>index\<leftarrow>[0..<NR_STATS].
        unat (cpustat (kcpustat_cpu src cpu_id) index)) mod 2 ^ 64 \<and>
   unat (relevant_jiffies (get_cpu_stats src)) =
     (\<Sum>cpu_id\<leftarrow>cpu_online_mask src. \<Sum>index\<leftarrow>[0..<NR_STATS].
        if relevant_stat index then unat (cpustat (kcpustat_cpu src cpu_id) index) else 0)
     mod 2 ^ 64 \<and>
   (\<forall>src'. cpu_online_mask src' = cpu_online_mask src \<and>
      (\<forall>cpu_id \<in> set (cpu_online_mask src). \<forall>index < NR_STATS.
         cpustat (kcpustat_cpu src' cpu_id) index = cpustat (kcpustat_cpu src cpu_id) index) \<longrightarrow>
      get_cpu_stats src' = get_cpu_stats src)"
proof (intro conjI allI impI)
  assume "cpu_online_mask src = []"
  then show "get_cpu_stats src = \<lparr>total_jiffies = 0, relevant_jiffies = 0\<rparr>"
    by (simp add: get_cpu_stats_def)
next
  show "unat (total_jiffies (get_cpu_stats src)) =
     (\<Sum>cpu_id\<leftarrow>cpu_online_mask src. \<Sum>index\<leftarrow>[0..<NR_STATS].
        unat (cpustat (kcpustat_cpu src cpu_id) index)) mod 2 ^ 64"
    by (simp add: get_cpu_stats_total exact_total_def unat_of_nat)
next
  show "unat (relevant_jiffies (get_cpu_stats src)) =
     (\<Sum>cpu_id\<leftarrow>cpu_online_mask src. \<Sum>index\<leftarrow>[0..<NR_STATS].
        if relevant_stat index then unat (cpustat (kcpustat_cpu src cpu_id) index) else 0)
     mod 2 ^ 64"
    by (simp add: get_cpu_stats_relevant exact_relevant_def unat_of_nat)
next
  fix src' :: cpu_source
  assume a: "cpu_online_mask src' = cpu_online_mask src \<and>
      (\<forall>cpu_id \<in> set (cpu_online_mask src). \<forall>index < NR_STATS.
         cpustat (kcpustat_cpu src' cpu_id) index = cpustat (kcpustat_cpu src cpu_id) index)"
  then have "\<forall>cpu_id \<in> set (cpu_online_mask src). count_cpu src' cpu_id = count_cpu src cpu_id"
    by (intro ballI count_cpu_cong) simp
  then have "fold (count_cpu src') (cpu_online_mask src) \<lparr>total_jiffies = 0, relevant_jiffies = 0\<rparr> =
             fold (count_cpu src) (cpu_online_mask src) \<lparr>total_jiffies = 0, relevant_jiffies = 0\<rparr>"
    by (intro fold_cong refl) simp
  with a show "get_cpu_stats src' = get_cpu_stats src"
    by (simp add: get_cpu_stats_def)
qed

text \<open>
  An empty online mask; and cores 0 and 2 online with 5 units in each of the ten
  categories, which sum to 100 in total and 60 in the busy categories whatever the offline
  core 1 shows.
\<close>

theorem sampler_sums_online_cores_witness:
  "get_cpu_stats \<lparr>cpu_online_mask = [],
      kcpustat_cpu = (\<lambda>cpu. \<lparr>cpustat = (\<lambda>i. 5)\<rparr>)\<rparr> =
     \<lparr>total_jiffies = 0, relevant_jiffies = 0\<rparr> \<and>
   unat (total_jiffies (get_cpu_stats \<lparr>cpu_online_mask = [0, 2],
      kcpustat_cpu = (\<lambda>cpu. \<lparr>cpustat = (\<lambda>i. if cpu = 1 then 99 else 5)\<rparr>)\<rparr>)) = 100 \<and>
   unat (relevant_jiffies (get_cpu_stats \<lparr>cpu_online_mask = [0, 2],
      kcpustat_cpu = (\<lambda>cpu. \<lparr>cpustat = (\<lambda>i. if cpu = 1 then 99 else 5)\<rparr>)\<rparr>)) = 60 \<and>
   get_cpu_stats \<lparr>cpu_online_mask = [0, 2],
      kcpustat_cpu = (\<lambda>cpu. \<lparr>cpustat = (\<lambda>i. if cpu = 1 then 99 else 5)\<rparr>)\<rparr> =
   get_cpu_stats \<lparr>cpu_online_mask = [0, 2],
      kcpustat_cpu = (\<lambda>cpu. \<lparr>cpustat = (\<lambda>i. 5)\<rparr>)\<rparr>"
proof -
  let ?e = "\<lparr>cpu_online_mask = [], kcpustat_cpu = (\<lambda>cpu. \<lparr>cpustat = (\<lambda>i. 5)\<rparr>)\<rparr>"
  let ?a = "\<lparr>cpu_online_mask = [0, 2 :: nat], kcpustat_cpu = (\<lambda>cpu. \<lparr>cpustat = (\<lambda>i. 5)\<rparr>)\<rparr>"
  let ?b = "\<lparr>cpu_online_mask = [0, 2 :: nat],
             kcpustat_cpu = (\<lambda>cpu. \<lparr>cpustat = (\<lambda>i. if cpu = 1 then 99 else 5)\<rparr>)\<rparr>"
  have 1: "get_cpu_stats ?e = \<lparr>total_jiffies = 0, relevant_jiffies = 0\<rparr>"
    using sampler_sums_online_cores [of ?e] by simp
  have 2: "unat (total_jiffies (get_cpu_stats ?b)) = 100"
    using sampler_sums_online_cores [of ?b, THEN conjunct2, THEN conjunct1]
    by (simp add: stat_indices)
  have 3: "unat (relevant_jiffies (get_cpu_stats ?b)) = 60"
    using sampler_sums_online_cores [of ?b, THEN conjunct2, THEN conjunct2, THEN conjunct1]
    by (simp add: stat_indices relevant_stat_def CPUTIME_USER_def CPUTIME_NICE_def
          CPUTIME_SYSTEM_def CPUTIME_IRQ_def CPUTIME_SOFTIRQ_def CPUTIME_STEAL_def)
  have 4: "get_cpu_stats ?b = get_cpu_stats ?a"
    using sampler_sums_online_cores
            [of ?a, THEN conjunct2, THEN conjunct2, THEN conjunct2, rule_format, of ?b]
    by simp
  show ?thesis
    by (rule conjI [OF 1 conjI [OF 2 conjI [OF 3 4]]])
qed

section \<open>Properties of the periodic task\<close>

text \<open>
  A tick never faults once the queue handle is set, and its effect on the state has a closed
  form; so has the effect of a timer expiry that finds the work pending.
\<close>

lemma compute_usage_returns: "\<exists>u. compute_usage previous current = Inr u"
  by (simp add: compute_usage_Inr)

lemma report_work_main_Inr:
  assumes u: "compute_usage \<lparr>total_jiffies = last_total_jiffies s,
                              relevant_jiffies = last_relevant_jiffies s\<rparr> (get_cpu_stats src) = Inr u"
    and q: "cpu_usage_report_work_queue s = Some q"
  shows "report_work_main HZ src s =
     Inr (s\<lparr>last_total_jiffies := total_jiffies (get_cpu_stats src),
            last_relevant_jiffies := relevant_jiffies (get_cpu_stats src),
            cpu_usage_report_work :=
              (if should_work_still_run s \<and> cpu_usage_report_work s = None
               then Some (q, report_delay HZ s) else cpu_usage_report_work s),
            dmesg := dmesg s @
              [Log KERN_INFO ''average CPU load in last %u seconds (all cores averaged): %lu%%''
                 [U (cpu_usage_report_period s), LU (percent u)]]\<rparr>)"
  using u q
  by (simp add: report_work_main_def Let_def cpu_usage_print_info_def queue_delayed_work_def
        report_delay_def)

lemma timer_expiry_pending:
  assumes u: "compute_usage \<lparr>total_jiffies = last_total_jiffies s,
                              relevant_jiffies = last_relevant_jiffies s\<rparr> (get_cpu_stats src) = Inr u"
    and q: "cpu_usage_report_work_queue s = Some q"
    and w: "cpu_usage_report_work s = Some w"
  shows "timer_expiry HZ src s =
     Inr (s\<lparr>last_total_jiffies := total_jiffies (get_cpu_stats src),
            last_relevant_jiffies := relevant_jiffies (get_cpu_stats src),
            cpu_usage_report_work :=
              (if should_work_still_run s then Some (q, report_delay HZ s) else None),
            dmesg := dmesg s @
              [Log KERN_INFO ''average CPU load in last %u seconds (all cores averaged): %lu%%''
                 [U (cpu_usage_report_period s), LU (percent u)]]\<rparr>)"
proof -
  let ?s0 = "s\<lparr>cpu_usage_report_work := None\<rparr>"
  have u0: "compute_usage \<lparr>total_jiffies = last_total_jiffies ?s0,
              relevant_jiffies = last_relevant_jiffies ?s0\<rparr> (get_cpu_stats src) = Inr u"
    using u by simp
  have q0: "cpu_usage_report_work_queue ?s0 = Some q"
    using q by simp
  show ?thesis
    using w by (simp add: timer_expiry_def report_work_main_Inr [OF u0 q0] report_delay_def)
qed

text \<open>
  With no work pending, no tick runs, however long the worker is observed.
\<close>

lemma timer_expiry_idle:
  "cpu_usage_report_work s = None \<Longrightarrow> timer_expiry HZ src s = Inr s"
  by (simp add: timer_expiry_def)

lemma run_worker_idle:
  "cpu_usage_report_work s = None \<Longrightarrow> run_worker HZ srcs s = Inr s"
  by (induction srcs) (simp_all add: timer_expiry_idle)

text \<open>
  While the flag stays set, every expiry runs a tick and arms the next one; the log grows
  by the reports of consecutive snapshots.
\<close>

lemma run_worker_running:
  assumes "cpu_usage_report_work_queue s = Some q"
    and "cpu_usage_report_work s = Some w"
    and "should_work_still_run s"
  shows "\<exists>s'. run_worker HZ srcs s = Inr s' \<and>
           dmesg s' = dmesg s @
             expected_reports (cpu_usage_report_period s)
               \<lparr>total_jiffies = last_total_jiffies s, relevant_jiffies = last_relevant_jiffies s\<rparr>
               (map get_cpu_stats srcs) \<and>
           \<lparr>total_jiffies = last_total_jiffies s', relevant_jiffies = last_relevant_jiffies s'\<rparr> =
             last (\<lparr>total_jiffies = last_total_jiffies s, relevant_jiffies = last_relevant_jiffies s\<rparr>
                   # map get_cpu_stats srcs) \<and>
           cpu_usage_report_period s' = cpu_usage_report_period s \<and>
           should_work_still_run s' = should_work_still_run s \<and>
           cpu_usage_report_work_queue s' = cpu_usage_report_work_queue s"
  using assms
proof (induction srcs arbitrary: s w)
  case Nil
  then show ?case by simp
next
  case (Cons src srcs)
  obtain u where u: "compute_usage \<lparr>total_jiffies = last_total_jiffies s,
      relevant_jiffies = last_relevant_jiffies s\<rparr> (get_cpu_stats src) = Inr u"
    using compute_usage_returns by blast
  define s1 where "s1 = s\<lparr>last_total_jiffies := total_jiffies (get_cpu_stats src),
            last_relevant_jiffies := relevant_jiffies (get_cpu_stats src),
            cpu_usage_report_work :=
              (if should_work_still_run s then Some (q, report_delay HZ s) else None),
            dmesg := dmesg s @
              [Log KERN_INFO ''average CPU load in last %u seconds (all cores averaged): %lu%%''
                 [U (cpu_usage_report_period s), LU (percent u)]]\<rparr>"
  have step: "timer_expiry HZ src s = Inr s1"
    unfolding s1_def by (rule timer_expiry_pending [OF u Cons.prems(1) Cons.prems(2)])
  have q1: "cpu_usage_report_work_queue s1 = Some q"
    using Cons.prems(1) by (simp add: s1_def)
  have w1: "cpu_usage_report_work s1 = Some (q, report_delay HZ s)"
    using Cons.prems(3) by (simp add: s1_def)
  have r1: "should_work_still_run s1"
    using Cons.prems(3) by (simp add: s1_def)
  from Cons.IH [OF q1 w1 r1] obtain s' where
    run: "run_worker HZ srcs s1 = Inr s'" and
    lg: "dmesg s' = dmesg s1 @
             expected_reports (cpu_usage_report_period s1)
               \<lparr>total_jiffies = last_total_jiffies s1, relevant_jiffies = last_relevant_jiffies s1\<rparr>
               (map get_cpu_stats srcs)" and
    bl: "\<lparr>total_jiffies = last_total_jiffies s', relevant_jiffies = last_relevant_jiffies s'\<rparr> =
             last (\<lparr>total_jiffies = last_total_jiffies s1, relevant_jiffies = last_relevant_jiffies s1\<rparr>
                   # map get_cpu_stats srcs)" and
    fr: "cpu_usage_report_period s' = cpu_usage_report_period s1"
        "should_work_still_run s' = should_work_still_run s1"
        "cpu_usage_report_work_queue s' = cpu_usage_report_work_queue s1"
    by blast
  have b1: "\<lparr>total_jiffies = last_total_jiffies s1, relevant_jiffies = last_relevant_jiffies s1\<rparr> =
            get_cpu_stats src"
    by (simp add: s1_def)
  have "run_worker HZ (src # srcs) s = Inr s'"
    using step run by simp
  moreover have "dmesg s' = dmesg s @
             expected_reports (cpu_usage_report_period s)
               \<lparr>total_jiffies = last_total_jiffies s, relevant_jiffies = last_relevant_jiffies s\<rparr>
               (map get_cpu_stats (src # srcs))"
    using lg u unfolding b1 by (simp add: s1_def)
  moreover have "\<lparr>total_jiffies = last_total_jiffies s', relevant_jiffies = last_relevant_jiffies s'\<rparr> =
             last (\<lparr>total_jiffies = last_total_jiffies s, relevant_jiffies = last_relevant_jiffies s\<rparr>
                   # map get_cpu_stats (src # srcs))"
    using bl unfolding b1 by simp
  moreover have "cpu_usage_report_period s' = cpu_usage_report_period s"
    "should_work_still_run s' = should_work_still_run s"
    "cpu_usage_report_work_queue s' = cpu_usage_report_work_queue s"
    using fr by (simp_all add: s1_def)
  ultimately show ?case by blast
qed

lemma length_expected_reports:
  "length (expected_reports period previous snaps) = length snaps"
  by (induction snaps arbitrary: previous) (simp_all add: compute_usage_Inr)

text \<open>
  The effect of \<^verbatim>\<open>cpu_usage_exit\<close>, and of \<^verbatim>\<open>cpu_usage_init\<close> when the allocation fails.
\<close>

lemma cpu_usage_exit_Inr:
  assumes "cpu_usage_report_work_queue s = Some q"
  shows "cpu_usage_exit s =
     Inr (s\<lparr>should_work_still_run := False, cpu_usage_report_work := None,
            workqueues := removeAll q (workqueues s),
            dmesg := dmesg s @
              [Log KERN_INFO ''waiting for report work to end...'' [],
               Log KERN_INFO ''disabled reporting and cleaned-up the module'' []]\<rparr>)"
  using assms
  by (simp add: cpu_usage_exit_def Let_def cpu_usage_print_info_def cancel_delayed_work_sync_def
        destroy_workqueue_def)

lemma cpu_usage_init_failure:
  "cpu_usage_init HZ None src s =
     Inr (- EAGAIN,
          s\<lparr>cpu_usage_report_work_queue := None,
            dmesg := dmesg s @
              [Log KERN_INFO ''enabled with period of %u seconds'' [U (cpu_usage_report_period s)],
               Log KERN_ERR ''could not create a workqueue for periodic reports, aborting...'' []]\<rparr>)"
  by (simp add: cpu_usage_init_def Let_def cpu_usage_print_info_def cpu_usage_print_error_def)


lemma get_cpu_stats_one_core:
  "get_cpu_stats (one_core user idle) = \<lparr>total_jiffies = user + idle, relevant_jiffies = user\<rparr>"
  by (simp add: one_core_def get_cpu_stats_def count_cpu_def stat_indices count_stat_def
        relevant_stat_def CPUTIME_USER_def CPUTIME_NICE_def CPUTIME_SYSTEM_def CPUTIME_IRQ_def
        CPUTIME_SOFTIRQ_def CPUTIME_STEAL_def CPUTIME_IDLE_def)

text \<open>
  C6. A tick (the expiry of the pending work, on a module whose queue handle is set) leaves
  the work armed again if and only if \<^verbatim>\<open>should_work_still_run\<close> is true when the tick checks
  it. \<^verbatim>\<open>cpu_usage_exit\<close> returns with the flag false and the work not pending, and from that
  state no tick executes at any later moment: the worker leaves the state, log included,
  unchanged.
\<close>

theorem rearm_iff_running_and_exit_stops:
  "(cpu_usage_report_work_queue s \<noteq> None \<and> cpu_usage_report_work s \<noteq> None \<longrightarrow>
      (\<exists>s'. timer_expiry HZ src s = Inr s' \<and>
            (cpu_usage_report_work s' \<noteq> None) = should_work_still_run s)) \<and>
   (cpu_usage_report_work_queue s \<noteq> None \<longrightarrow>
      (\<exists>s'. cpu_usage_exit s = Inr s' \<and> \<not> should_work_still_run s' \<and>
            cpu_usage_report_work s' = None \<and>
            (\<forall>srcs. run_worker HZ srcs s' = Inr s')))"
proof (intro conjI impI)
  assume "cpu_usage_report_work_queue s \<noteq> None \<and> cpu_usage_report_work s \<noteq> None"
  then obtain q w where q: "cpu_usage_report_work_queue s = Some q"
    and w: "cpu_usage_report_work s = Some w"
    by auto
  obtain u where u: "compute_usage \<lparr>total_jiffies = last_total_jiffies s,
      relevant_jiffies = last_relevant_jiffies s\<rparr> (get_cpu_stats src) = Inr u"
    using compute_usage_returns by blast
  show "\<exists>s'. timer_expiry HZ src s = Inr s' \<and>
          (cpu_usage_report_work s' \<noteq> None) = should_work_still_run s"
    by (simp add: timer_expiry_pending [OF u q w])
next
  assume "cpu_usage_report_work_queue s \<noteq> None"
  then obtain q where q: "cpu_usage_report_work_queue s = Some q"
    by auto
  show "\<exists>s'. cpu_usage_exit s = Inr s' \<and> \<not> should_work_still_run s' \<and>
          cpu_usage_report_work s' = None \<and> (\<forall>srcs. run_worker HZ srcs s' = Inr s')"
    by (simp add: cpu_usage_exit_Inr [OF q] run_worker_idle)
qed

text \<open>
  A tick on the running module re-arms; a tick on the module whose flag was cleared does
  not; after the exit two later expiries run nothing.
\<close>

theorem rearm_iff_running_and_exit_stops_witness:
  "(\<exists>s'. timer_expiry 250 (one_core 400 1100) armed_module = Inr s' \<and>
         cpu_usage_report_work s' \<noteq> None) \<and>
   (\<exists>s'. timer_expiry 250 (one_core 400 1100)
           (armed_module\<lparr>should_work_still_run := False\<rparr>) = Inr s' \<and>
         cpu_usage_report_work s' = None) \<and>
   (\<exists>s'. cpu_usage_exit armed_module = Inr s' \<and> cpu_usage_report_work s' = None \<and>
         run_worker 250 [one_core 400 1100, one_core 700 1300] s' = Inr s')"
proof -
  let ?stopping = "armed_module\<lparr>should_work_still_run := False\<rparr>"
  have h1: "cpu_usage_report_work_queue armed_module \<noteq> None \<and>
            cpu_usage_report_work armed_module \<noteq> None"
    by (simp add: armed_module_def)
  have h2: "cpu_usage_report_work_queue ?stopping \<noteq> None \<and>
            cpu_usage_report_work ?stopping \<noteq> None"
    by (simp add: armed_module_def)
  have h3: "cpu_usage_report_work_queue armed_module \<noteq> None"
    by (simp add: armed_module_def)
  have r1: "should_work_still_run armed_module"
    by (simp add: armed_module_def)
  have r2: "\<not> should_work_still_run ?stopping"
    by simp
  from rearm_iff_running_and_exit_stops
         [of armed_module 250 "one_core 400 1100", THEN conjunct1, THEN mp, OF h1]
  obtain a where a: "timer_expiry 250 (one_core 400 1100) armed_module = Inr a"
    and aw: "(cpu_usage_report_work a \<noteq> None) = should_work_still_run armed_module"
    by blast
  from aw r1 have "cpu_usage_report_work a \<noteq> None"
    by (cases "cpu_usage_report_work a") simp_all
  with a have 1: "\<exists>s'. timer_expiry 250 (one_core 400 1100) armed_module = Inr s' \<and>
         cpu_usage_report_work s' \<noteq> None"
    by blast
  from rearm_iff_running_and_exit_stops
         [of ?stopping 250 "one_core 400 1100", THEN conjunct1, THEN mp, OF h2]
  obtain t where t: "timer_expiry 250 (one_core 400 1100) ?stopping = Inr t"
    and tw: "(cpu_usage_report_work t \<noteq> None) = should_work_still_run ?stopping"
    by blast
  from tw r2 have "cpu_usage_report_work t = None"
    by (cases "cpu_usage_report_work t") simp_all
  with t have 2: "\<exists>s'. timer_expiry 250 (one_core 400 1100) ?stopping = Inr s' \<and>
         cpu_usage_report_work s' = None"
    by blast
  from rearm_iff_running_and_exit_stops
         [of armed_module 250 "one_core 400 1100", THEN conjunct2, THEN mp, OF h3]
  have 3: "\<exists>s'. cpu_usage_exit armed_module = Inr s' \<and> cpu_usage_report_work s' = None \<and>
         run_worker 250 [one_core 400 1100, one_core 700 1300] s' = Inr s'"
    by blast
  show ?thesis
    by (rule conjI [OF 1 conjI [OF 2 3]])
qed

text \<open>
  C7. A tick on a module whose queue handle is set appends its report to the log, stores
  the snapshot it sampled in \<^verbatim>\<open>last_total_jiffies\<close> and \<^verbatim>\<open>last_relevant_jiffies\<close>, and leaves
  the period, the running flag and the queue handle as they were. Hence, over any run of
  ticks of the running module, every tick reports the usage between the snapshot of the tick
  before it and its own snapshot (the first tick starts from the stored baseline), one line
  per tick, and the stored baseline at the end is the last snapshot sampled.
\<close>

theorem tick_replaces_baseline:
  "(cpu_usage_report_work_queue s \<noteq> None \<longrightarrow>
      (\<exists>s' u. report_work_main HZ src s = Inr s' \<and>
         compute_usage \<lparr>total_jiffies = last_total_jiffies s,
                        relevant_jiffies = last_relevant_jiffies s\<rparr> (get_cpu_stats src) = Inr u \<and>
         dmesg s' = dmesg s @
           [Log KERN_INFO ''average CPU load in last %u seconds (all cores averaged): %lu%%''
              [U (cpu_usage_report_period s), LU (percent u)]] \<and>
         last_total_jiffies s' = total_jiffies (get_cpu_stats src) \<and>
         last_relevant_jiffies s' = relevant_jiffies (get_cpu_stats src) \<and>
         cpu_usage_report_period s' = cpu_usage_report_period s \<and>
         should_work_still_run s' = should_work_still_run s \<and>
         cpu_usage_report_work_queue s' = cpu_usage_report_work_queue s \<and>
         workqueues s' = workqueues s)) \<and>
   (cpu_usage_report_work_queue s \<noteq> None \<and> cpu_usage_report_work s \<noteq> None \<and>
    should_work_still_run s \<longrightarrow>
      (\<forall>srcs. \<exists>s'. run_worker HZ srcs s = Inr s' \<and>
         dmesg s' = dmesg s @
           expected_reports (cpu_usage_report_period s)
             \<lparr>total_jiffies = last_total_jiffies s, relevant_jiffies = last_relevant_jiffies s\<rparr>
             (map get_cpu_stats srcs) \<and>
         length (dmesg s') = length (dmesg s) + length srcs \<and>
         \<lparr>total_jiffies = last_total_jiffies s', relevant_jiffies = last_relevant_jiffies s'\<rparr> =
           last (\<lparr>total_jiffies = last_total_jiffies s, relevant_jiffies = last_relevant_jiffies s\<rparr>
                 # map get_cpu_stats srcs) \<and>
         cpu_usage_report_period s' = cpu_usage_report_period s \<and>
         should_work_still_run s' = should_work_still_run s \<and>
         cpu_usage_report_work_queue s' = cpu_usage_report_work_queue s))"
proof (intro conjI impI allI)
  assume "cpu_usage_report_work_queue s \<noteq> None"
  then obtain q where q: "cpu_usage_report_work_queue s = Some q"
    by auto
  obtain u where u: "compute_usage \<lparr>total_jiffies = last_total_jiffies s,
      relevant_jiffies = last_relevant_jiffies s\<rparr> (get_cpu_stats src) = Inr u"
    using compute_usage_returns by blast
  show "\<exists>s' u. report_work_main HZ src s = Inr s' \<and>
         compute_usage \<lparr>total_jiffies = last_total_jiffies s,
                        relevant_jiffies = last_relevant_jiffies s\<rparr> (get_cpu_stats src) = Inr u \<and>
         dmesg s' = dmesg s @
           [Log KERN_INFO ''average CPU load in last %u seconds (all cores averaged): %lu%%''
              [U (cpu_usage_report_period s), LU (percent u)]] \<and>
         last_total_jiffies s' = total_jiffies (get_cpu_stats src) \<and>
         last_relevant_jiffies s' = relevant_jiffies (get_cpu_stats src) \<and>
         cpu_usage_report_period s' = cpu_usage_report_period s \<and>
         should_work_still_run s' = should_work_still_run s \<and>
         cpu_usage_report_work_queue s' = cpu_usage_report_work_queue s \<and>
         workqueues s' = workqueues s"
    by (simp add: report_work_main_Inr [OF u q] u)
next
  fix srcs
  assume "cpu_usage_report_work_queue s \<noteq> None \<and> cpu_usage_report_work s \<noteq> None \<and>
    should_work_still_run s"
  then obtain q w where q: "cpu_usage_report_work_queue s = Some q"
    and w: "cpu_usage_report_work s = Some w" and r: "should_work_still_run s"
    by auto
  from run_worker_running [OF q w r, of HZ srcs] obtain s' where
    s': "run_worker HZ srcs s = Inr s'"
      "dmesg s' = dmesg s @
           expected_reports (cpu_usage_report_period s)
             \<lparr>total_jiffies = last_total_jiffies s, relevant_jiffies = last_relevant_jiffies s\<rparr>
             (map get_cpu_stats srcs)"
      "\<lparr>total_jiffies = last_total_jiffies s', relevant_jiffies = last_relevant_jiffies s'\<rparr> =
           last (\<lparr>total_jiffies = last_total_jiffies s, relevant_jiffies = last_relevant_jiffies s\<rparr>
                 # map get_cpu_stats srcs)"
      "cpu_usage_report_period s' = cpu_usage_report_period s"
      "should_work_still_run s' = should_work_still_run s"
      "cpu_usage_report_work_queue s' = cpu_usage_report_work_queue s"
    by blast
  have "length (dmesg s') = length (dmesg s) + length srcs"
    by (simp add: s'(2) length_expected_reports)
  with s' show "\<exists>s'. run_worker HZ srcs s = Inr s' \<and>
         dmesg s' = dmesg s @
           expected_reports (cpu_usage_report_period s)
             \<lparr>total_jiffies = last_total_jiffies s, relevant_jiffies = last_relevant_jiffies s\<rparr>
             (map get_cpu_stats srcs) \<and>
         length (dmesg s') = length (dmesg s) + length srcs \<and>
         \<lparr>total_jiffies = last_total_jiffies s', relevant_jiffies = last_relevant_jiffies s'\<rparr> =
           last (\<lparr>total_jiffies = last_total_jiffies s, relevant_jiffies = last_relevant_jiffies s\<rparr>
                 # map get_cpu_stats srcs) \<and>
         cpu_usage_report_period s' = cpu_usage_report_period s \<and>
         should_work_still_run s' = should_work_still_run s \<and>
         cpu_usage_report_work_queue s' = cpu_usage_report_work_queue s"
    by blast
qed

text \<open>
  From the baseline (1000, 200), a tick sampling (1500, 400) stores (1500, 400) and reports
  40; the next tick, sampling (2000, 700), reports 60: the usage since the first tick, not
  the 50 it would be against the start baseline.
\<close>

theorem tick_replaces_baseline_witness:
  "(\<exists>s'. report_work_main 250 (one_core 400 1100) armed_module = Inr s' \<and>
      last_total_jiffies s' = 1500 \<and> last_relevant_jiffies s' = 400 \<and>
      cpu_usage_report_period s' = 10 \<and> should_work_still_run s') \<and>
   (\<exists>s'. run_worker 250 [one_core 400 1100, one_core 700 1300] armed_module = Inr s' \<and>
      dmesg s' =
        [Log KERN_INFO ''average CPU load in last %u seconds (all cores averaged): %lu%%''
           [U 10, LU 40],
         Log KERN_INFO ''average CPU load in last %u seconds (all cores averaged): %lu%%''
           [U 10, LU 60]] \<and>
      last_total_jiffies s' = 2000 \<and> last_relevant_jiffies s' = 700)"
proof -
  have h0: "cpu_usage_report_work_queue armed_module \<noteq> None"
    by (simp add: armed_module_def)
  from tick_replaces_baseline
         [of armed_module 250 "one_core 400 1100", THEN conjunct1, THEN mp, OF h0]
  obtain s1 where
    t1: "report_work_main 250 (one_core 400 1100) armed_module = Inr s1" and
    t2: "last_total_jiffies s1 = total_jiffies (get_cpu_stats (one_core 400 1100))" and
    t3: "last_relevant_jiffies s1 = relevant_jiffies (get_cpu_stats (one_core 400 1100))" and
    t4: "cpu_usage_report_period s1 = cpu_usage_report_period armed_module" and
    t5: "should_work_still_run s1 = should_work_still_run armed_module"
    by blast
  have single: "\<exists>s'. report_work_main 250 (one_core 400 1100) armed_module = Inr s' \<and>
      last_total_jiffies s' = 1500 \<and> last_relevant_jiffies s' = 400 \<and>
      cpu_usage_report_period s' = 10 \<and> should_work_still_run s'"
    using t1 t2 t3 t4 t5 by (simp add: get_cpu_stats_one_core armed_module_def)
  have h: "cpu_usage_report_work_queue armed_module \<noteq> None \<and>
      cpu_usage_report_work armed_module \<noteq> None \<and> should_work_still_run armed_module"
    by (simp add: armed_module_def)
  from tick_replaces_baseline
         [of armed_module 250 "one_core 400 1100", THEN conjunct2, THEN mp, OF h, rule_format,
          of "[one_core 400 1100, one_core 700 1300]"]
  obtain s' where
    run: "run_worker 250 [one_core 400 1100, one_core 700 1300] armed_module = Inr s'" and
    lg: "dmesg s' = dmesg armed_module @
           expected_reports (cpu_usage_report_period armed_module)
             \<lparr>total_jiffies = last_total_jiffies armed_module,
              relevant_jiffies = last_relevant_jiffies armed_module\<rparr>
             (map get_cpu_stats [one_core 400 1100, one_core 700 1300])" and
    bl: "\<lparr>total_jiffies = last_total_jiffies s', relevant_jiffies = last_relevant_jiffies s'\<rparr> =
           last (\<lparr>total_jiffies = last_total_jiffies armed_module,
                  relevant_jiffies = last_relevant_jiffies armed_module\<rparr>
                 # map get_cpu_stats [one_core 400 1100, one_core 700 1300])"
    by blast
  have "dmesg s' =
       [Log KERN_INFO ''average CPU load in last %u seconds (all cores averaged): %lu%%''
          [U 10, LU 40],
        Log KERN_INFO ''average CPU load in last %u seconds (all cores averaged): %lu%%''
          [U 10, LU 60]]"
    using lg by (simp add: armed_module_def get_cpu_stats_one_core compute_usage_Inr)
  moreover have "last_total_jiffies s' = 2000 \<and> last_relevant_jiffies s' = 700"
    using bl by (simp add: get_cpu_stats_one_core)
  ultimately have
    "\<exists>s'. run_worker 250 [one_core 400 1100, one_core 700 1300] armed_module = Inr s' \<and>
      dmesg s' =
        [Log KERN_INFO ''average CPU load in last %u seconds (all cores averaged): %lu%%''
           [U 10, LU 40],
         Log KERN_INFO ''average CPU load in last %u seconds (all cores averaged): %lu%%''
           [U 10, LU 60]] \<and>
      last_total_jiffies s' = 2000 \<and> last_relevant_jiffies s' = 700"
    using run by blast
  with single show ?thesis
    by (rule conjI)
qed

text \<open>
  C8. When \<^verbatim>\<open>alloc_workqueue\<close> returns \<^verbatim>\<open>NULL\<close>, \<^verbatim>\<open>cpu_usage_init\<close> returns the nonzero code
  \<open>-EAGAIN\<close> after logging the start line and one error line; it reads no counters (the
  result does not depend on the kernel's counters), changes nothing but the log and the
  handle, which is \<^verbatim>\<open>NULL\<close> as at load time, and arms no work. On the module as loaded the
  state is unchanged apart from the log, and no tick executes at any later moment.
\<close>

theorem init_failure_arms_nothing:
  "cpu_usage_init HZ None src s =
     Inr (- EAGAIN,
          s\<lparr>cpu_usage_report_work_queue := None,
            dmesg := dmesg s @
              [Log KERN_INFO ''enabled with period of %u seconds'' [U (cpu_usage_report_period s)],
               Log KERN_ERR ''could not create a workqueue for periodic reports, aborting...'' []]\<rparr>) \<and>
   - EAGAIN \<noteq> 0 \<and>
   (\<exists>s'. cpu_usage_init HZ None src (module_load period lg) = Inr (- EAGAIN, s') \<and>
      s' = (module_load period lg)\<lparr>dmesg := lg @
              [Log KERN_INFO ''enabled with period of %u seconds'' [U period],
               Log KERN_ERR ''could not create a workqueue for periodic reports, aborting...'' []]\<rparr> \<and>
      cpu_usage_report_work s' = None \<and> workqueues s' = [] \<and>
      last_total_jiffies s' = 0 \<and> last_relevant_jiffies s' = 0 \<and>
      (\<forall>srcs. run_worker HZ srcs s' = Inr s'))"
  by (simp add: cpu_usage_init_failure EAGAIN_def run_worker_idle module_load_def)

text \<open>
  The failing start of a module loaded with period 10.
\<close>

theorem init_failure_arms_nothing_witness:
  "cpu_usage_init 250 None (one_core 400 1100) (module_load 10 []) =
     Inr (- 11,
          \<lparr>cpu_usage_report_period = 10, cpu_usage_report_work_queue = None,
           should_work_still_run = True, last_total_jiffies = 0, last_relevant_jiffies = 0,
           cpu_usage_report_work = None, workqueues = [],
           dmesg = [Log KERN_INFO ''enabled with period of %u seconds'' [U 10],
                    Log KERN_ERR
                      ''could not create a workqueue for periodic reports, aborting...'' []]\<rparr>)"
  using init_failure_arms_nothing [of 250 "one_core 400 1100" "module_load 10 []" 10 "[]"]
  by (simp add: module_load_def EAGAIN_def)

end
